theory Spec2Isabelle
  imports Complex_Main "HOL-Library.Word" "HOL-Library.Sublist"
begin

unbundle bit_operations_syntax

section \<open>makinoa: compile C sources and insert them into a ROM image\<close>

text \<open>
  A shallow embedding of \<^verbatim>\<open>src/scripts/makinoa/__main__.py\<close>. Python integers are
  unbounded and are modelled as \<^typ>\<open>int\<close>; \<^verbatim>\<open>&\<close>, \<^verbatim>\<open>|\<close>, \<^verbatim>\<open>^\<close> and \<^verbatim>\<open>>>\<close> on them are the
  two's complement operations \<open>AND\<close>, \<open>OR\<close>, \<open>XOR\<close> and \<^const>\<open>drop_bit\<close> of HOL. A byte is an
  8-bit word, the content of a file a list of bytes. An uncaught exception is a value of
  \<open>py_error\<close>; a loop that may run forever is a partial function whose value \<open>None\<close> stands
  for not returning.
\<close>

type_synonym byte = "8 word"

datatype py_error = TypeError | FileNotFoundError | OSError

subsection \<open>Alignment and the size of the allocation (lines 127 to 137)\<close>

text \<open>
  \<^verbatim>\<open>def round_up_to_4(x): if x & 0x3 == 0: return x else: return round_up_to_4(x + 1)\<close>
\<close>

function round_up_to_4 :: "int \<Rightarrow> int" where
  "round_up_to_4 x = (if x AND 0x3 = 0 then x else round_up_to_4 (x + 1))"
  by pat_completeness auto

lemma and_3_eq_mod_4: "(x::int) AND 3 = x mod 4"
proof -
  have "x AND mask 2 = x mod 2 ^ 2"
    by (simp only: take_bit_eq_mask [symmetric] take_bit_eq_mod)
  then show ?thesis by (simp add: mask_eq_exp_minus_1)
qed

termination round_up_to_4
proof (relation "measure (\<lambda>x. nat ((- x) mod 4))")
  show "wf (measure (\<lambda>x. nat ((- x) mod 4)))" by simp
next
  fix x :: int
  assume "x AND 0x3 \<noteq> 0"
  then have "x mod 4 \<noteq> 0" by (simp add: and_3_eq_mod_4)
  then have "(- (x + 1)) mod 4 < (- x) mod 4" by presburger
  then show "(x + 1, x) \<in> measure (\<lambda>x. nat ((- x) mod 4))" by simp
qed

declare round_up_to_4.simps [simp del]

definition offset_mask :: int where
  "offset_mask = 0x08000000"

text \<open>
  Line 136: \<^verbatim>\<open>needed_words = round_up_to_4(os.stat(relocatable).st_size + reserve) >> 2\<close>,
  as a function of the blob's size and the reserve.
\<close>

definition needed_words_of :: "int \<Rightarrow> int \<Rightarrow> int" where
  "needed_words_of st_size reserve = drop_bit 2 (round_up_to_4 (st_size + reserve))"

text \<open>Lines 134 and 137: \<^verbatim>\<open>free_space |= offset_mask; free_space = round_up_to_4(free_space)\<close>.\<close>

definition normalize_free_space :: "int \<Rightarrow> int" where
  "normalize_free_space free_space = round_up_to_4 (free_space OR offset_mask)"

subsection \<open>The free-space locator (lines 139 to 162)\<close>

text \<open>The four bytes \<^verbatim>\<open>b"\xff\xff\xff\xff"\<close> an erased word reads as.\<close>

definition erased :: "byte list" where
  "erased = [0xFF, 0xFF, 0xFF, 0xFF]"

text \<open>
  One iteration of the \<^verbatim>\<open>while\<close> loop. The state is the position of the file object and the
  two variables \<^verbatim>\<open>record\<close> (here \<open>rec\<close>) and \<^verbatim>\<open>start\<close>. \<^verbatim>\<open>rom.read(4)\<close> returns the at most four
  bytes left at the position and moves the position past them, so \<^verbatim>\<open>rom.tell()\<close> afterwards
  is the old position plus the number of bytes read. The \<^verbatim>\<open>else\<close> branch of a word that is
  not erased assigns \<^verbatim>\<open>start = None\<close> and nothing else.
\<close>

definition scan_step :: "byte list \<Rightarrow> nat \<times> int \<times> int option \<Rightarrow> nat \<times> int \<times> int option" where
  "scan_step rom s =
     (case s of (pos, rec, start) \<Rightarrow>
        let val = take 4 (drop pos rom);
            tell = pos + length val
        in if val = erased then
             (case start of
                None \<Rightarrow> (tell, if rec = 0 then 1 else rec, Some (int tell - 4))
              | Some _ \<Rightarrow> (tell, rec + 1, start))
           else (tell, rec, None))"

text \<open>
  \<^verbatim>\<open>while record < needed_words: ...\<close>, returning the value of \<^verbatim>\<open>start\<close> at the exit. Nothing
  bounds the loop, so it is a partial function.
\<close>

partial_function (option) scan_loop ::
  "byte list \<Rightarrow> int \<Rightarrow> nat \<times> int \<times> int option \<Rightarrow> int option option" where
  "scan_loop rom needed_words s =
     (if fst (snd s) < needed_words
      then scan_loop rom needed_words (scan_step rom s)
      else Some (snd (snd s)))"

declare scan_loop.simps [code]

text \<open>
  \<^verbatim>\<open>find_needed_words(needed_words, free_space)\<close>. The image \<^verbatim>\<open>rom.gba\<close> is \<open>None\<close> when the file
  does not exist (\<^verbatim>\<open>open\<close> raises). \<^verbatim>\<open>rom.seek\<close> raises \<^verbatim>\<open>OSError\<close> on a negative offset and
  accepts an offset past the end of the file, from where every read is empty (offsets
  beyond what the operating system can address are left out of the model).
  \<^verbatim>\<open>start ^ offset_mask\<close> raises \<^verbatim>\<open>TypeError\<close> when \<^verbatim>\<open>start\<close> is \<^verbatim>\<open>None\<close>, which is the case only
  when \<^verbatim>\<open>needed_words\<close> is negative. The result is \<open>None\<close> when the loop does not return.
\<close>

definition find_needed_words :: "byte list option \<Rightarrow> int \<Rightarrow> int \<Rightarrow> (py_error + int) option" where
  "find_needed_words rom_gba needed_words free_space =
     (if needed_words = 0 then Some (Inr 0)
      else case rom_gba of
        None \<Rightarrow> Some (Inl FileNotFoundError)
      | Some rom \<Rightarrow>
          if offset_mask XOR free_space < 0 then Some (Inl OSError)
          else (case scan_loop rom needed_words (nat (offset_mask XOR free_space), 0, None) of
                  None \<Rightarrow> None
                | Some None \<Rightarrow> Some (Inl TypeError)
                | Some (Some start) \<Rightarrow> Some (Inr (start XOR offset_mask))))"

subsection \<open>What the specification asks of the locator\<close>

text \<open>
  From the specification's words, for comparison with the code: a run of \<open>n\<close> erased words
  starts at offset \<open>p\<close> when the \<open>n\<close> consecutive 4-byte groups from \<open>p\<close> on all read as
  four \<^verbatim>\<open>0xFF\<close> bytes.
\<close>

fun erased_run_at :: "byte list \<Rightarrow> nat \<Rightarrow> nat \<Rightarrow> bool" where
  "erased_run_at rom p 0 = True"
| "erased_run_at rom p (Suc n) = (take 4 (drop p rom) = erased \<and> erased_run_at rom (p + 4) n)"

text \<open>
  The first offset, going forward from \<open>off\<close> in steps of one word, at which a run of at
  least \<open>n\<close> erased words starts; \<open>None\<close> when the image has none.
\<close>

definition spec_first_run :: "byte list \<Rightarrow> nat \<Rightarrow> nat \<Rightarrow> nat option" where
  "spec_first_run rom off n =
     List.find (\<lambda>p. erased_run_at rom p n) (map (\<lambda>j. off + 4 * j) [0..<Suc (length rom div 4)])"

section \<open>The pipeline\<close>

subsection \<open>The outside world of the script\<close>

text \<open>
  What the script does to the outside world is a trace of events, in order: text printed
  on standard output, child processes run with their argument vector and exit status,
  and changes to the file system.
\<close>

datatype event =
    Print string
  | Run "string list" int
  | Rmtree string
  | Mkdir string
  | Truncate string
  | Copy string string
  | Write string "string list"

text \<open>
  How a run of the script ends: by reaching the end of the file, by \<^verbatim>\<open>sys.exit(n)\<close>, or by an
  exception nothing catches.
\<close>

datatype stop = Finished | Exit int | Raised py_error

text \<open>
  What the script reads from the outside world, as its parameters:
  \<^item> \<open>py_int base s\<close> is the builtin \<^verbatim>\<open>int(s, base)\<close> on a string, \<open>None\<close> where it raises
    \<^verbatim>\<open>ValueError\<close>;
  \<^item> \<open>environ\<close> is \<^verbatim>\<open>os.environ\<close>, \<open>path_exists\<close> is \<^verbatim>\<open>os.path.exists\<close>, \<open>which\<close> is \<^verbatim>\<open>shutil.which\<close>
    and \<open>listdir\<close> is \<^verbatim>\<open>os.listdir\<close>, in the order it lists the names;
  \<^item> \<open>returncode tr argv\<close> is \<^verbatim>\<open>subprocess.run(argv).returncode\<close> for a child process started
    after the events \<open>tr\<close>, \<open>None\<close> where the program cannot be started and
    \<^verbatim>\<open>subprocess.run\<close> raises an \<^verbatim>\<open>OSError\<close>;
  \<^item> \<open>linked_size\<close> is the size of the blob the linker leaves, when it runs;
  \<^item> \<open>file_rom_gba\<close> and \<open>file_main_asm\<close> are the image, as bytes, and the template, as its
    lines, \<open>None\<close> when the file does not exist.
  Creating and writing files below the build directory is taken to succeed.
\<close>

record world =
  py_int :: "nat \<Rightarrow> string \<Rightarrow> int option"
  environ :: "string \<Rightarrow> string option"
  path_exists :: "string \<Rightarrow> bool"
  which :: "string \<Rightarrow> string option"
  listdir :: "string \<Rightarrow> string list"
  returncode :: "event list \<Rightarrow> string list \<Rightarrow> int option"
  linked_size :: nat
  file_rom_gba :: "byte list option"
  file_main_asm :: "string list option"

text \<open>
  The configuration as lines 27 to 31 leave it, after the working directory is set and
  \<^verbatim>\<open>config.ini\<close> is read: the three values of the section \<^verbatim>\<open>main\<close> (the fallback where the key
  is absent, \<open>None\<close> where the key stands without a value), the keys of the section
  \<^verbatim>\<open>short-calls\<close>, and the keys and values of the section \<^verbatim>\<open>defines\<close> in their order.
\<close>

record config =
  cfg_free_space :: "string option"
  cfg_optimization_level :: "string option"
  cfg_reserve :: "string option"
  cfg_short_calls :: "string set"
  cfg_defines :: "(string \<times> string option) list"

text \<open>\<^verbatim>\<open>os.path.join\<close> of a POSIX system, for one more component and for several.\<close>

definition join2 :: "string \<Rightarrow> string \<Rightarrow> string" where
  "join2 a b =
     (if take 1 b = ''/'' then b
      else if a = [] \<or> last a = CHR ''/'' then a @ b
      else a @ ''/'' @ b)"

definition os_path_join :: "string \<Rightarrow> string list \<Rightarrow> string" where
  "os_path_join a ps = foldl join2 a ps"

text \<open>Lines 6 to 8 and 109.\<close>

definition src :: string where
  "src = ''src''"

definition build :: string where
  "build = ''build''"

definition build_src :: string where
  "build_src = os_path_join build [src]"

definition relocatable :: string where
  "relocatable = os_path_join build_src [''relocatable.o'']"

text \<open>
  Lines 33 to 47. The three values come from \<^verbatim>\<open>iniparser.get\<close>; the parser is created with
  \<^verbatim>\<open>allow_no_value=True\<close>, so a key written without a value reads as \<^verbatim>\<open>None\<close>, on which \<^verbatim>\<open>int\<close>
  raises \<^verbatim>\<open>TypeError\<close>, an exception the \<^verbatim>\<open>except ValueError\<close> clauses do not catch. The builtin
  \<^verbatim>\<open>int(s, base)\<close> on a string is the world's \<open>py_int\<close>, \<open>None\<close> where it raises \<^verbatim>\<open>ValueError\<close>.
  An f-string renders \<^verbatim>\<open>None\<close> as the text \<^verbatim>\<open>None\<close>.
\<close>

definition understood_levels :: "string list" where
  "understood_levels = [''-O'', ''-O0'', ''-O1'', ''-O2'', ''-O3'', ''-Ofast'', ''-Og'', ''-Os'']"

definition parse_config ::
  "world \<Rightarrow> config \<Rightarrow> event list \<Rightarrow> (event list \<times> stop) + (event list \<times> int \<times> int \<times> string)" where
  "parse_config w cfg tr =
     (case cfg_free_space cfg of
        None \<Rightarrow> Inl (tr, Raised TypeError)
      | Some fs \<Rightarrow>
        (case py_int w 16 fs of
           None \<Rightarrow> Inl (tr @ [Print (''Error :: '' @ fs @ '' is not a hexadecimal integer.'')], Exit 1)
         | Some free_space \<Rightarrow>
           (case cfg_reserve cfg of
              None \<Rightarrow> Inl (tr, Raised TypeError)
            | Some rs \<Rightarrow>
              (case py_int w 10 rs of
                 None \<Rightarrow> Inl (tr @ [Print (''Error :: '' @ rs @ '' is not a decimal integer.'')], Exit 1)
               | Some reserve \<Rightarrow>
                 (case cfg_optimization_level cfg of
                    None \<Rightarrow>
                      Inl (tr @ [Print ''Error :: None is not an understood optimization level.''], Exit 1)
                  | Some optimization_level \<Rightarrow>
                      if optimization_level \<in> set understood_levels
                      then Inr (tr, free_space, reserve, optimization_level)
                      else Inl (tr @ [Print (''Error :: '' @ optimization_level
                                  @ '' is not an understood optimization level.'')], Exit 1))))))"

text \<open>Lines 49 to 52: the build directory is removed and made again.\<close>

definition clean_build :: "event list \<Rightarrow> event list" where
  "clean_build tr = tr @ [Rmtree build, Mkdir build, Mkdir build_src]"

text \<open>Lines 54 to 67: the compiler and the linker.\<close>

definition find_devkitarm :: "world \<Rightarrow> event list \<Rightarrow> (event list \<times> stop) + (event list \<times> string \<times> string)" where
  "find_devkitarm w tr =
     (case environ w ''DEVKITARM'' of
        Some devkitarm \<Rightarrow>
          if path_exists w devkitarm
          then Inr (tr, os_path_join devkitarm [''bin'', ''arm-none-eabi-gcc''],
                        os_path_join devkitarm [''bin'', ''arm-none-eabi-ld''])
          else Inr (tr, os_path_join ''C:/'' [''devkitPro'', ''devkitARM'', ''bin'', ''arm-none-eabi-gcc''],
                        os_path_join ''C:/'' [''devkitPro'', ''devkitARM'', ''bin'', ''arm-none-eabi-ld''])
      | None \<Rightarrow>
          (case (which w ''arm-none-eabi-gcc'', which w ''arm-none-eabi-ld'') of
             (Some CC, Some LD) \<Rightarrow> Inr (tr, CC, LD)
           | _ \<Rightarrow> Inl (tr @ [Print ''Error :: Can't find devkitARM.''], Exit 1)))"

text \<open>Lines 69 to 87.\<close>

definition CFLAGS :: "string \<Rightarrow> (string \<times> string option) list \<Rightarrow> string list" where
  "CFLAGS optimization_level defs =
     [optimization_level, ''-Wall'', ''-Wextra'', ''-mthumb'', ''-mno-thumb-interwork'',
      ''-fno-inline'', ''-fno-builtin'', ''-std=c11'', ''-mcpu=arm7tdmi'', ''-march=armv4t'',
      ''-mtune=arm7tdmi'', ''-c'']
     @ concat (map (\<lambda>(name, val). [''-D'', name @ (case val of None \<Rightarrow> [] | Some v \<Rightarrow> ''='' @ v)]) defs)"

definition LDFLAGS :: "string list" where
  "LDFLAGS = [''--relocatable'']"

text \<open>
  \<^verbatim>\<open>fnmatch.fnmatch(path, "*.c")\<close>, with the case-sensitive matching of a POSIX system: the
  name ends in \<^verbatim>\<open>.c\<close>.
\<close>

definition fnmatch_c :: "string \<Rightarrow> bool" where
  "fnmatch_c path = suffix ''.c'' path"

text \<open>
  \<^verbatim>\<open>srcfile.replace(".c", ".o")\<close>: every occurrence of \<^verbatim>\<open>.c\<close>, from the left and without
  overlap, becomes \<^verbatim>\<open>.o\<close>, not only the extension.
\<close>

fun replace_c_o :: "string \<Rightarrow> string" where
  "replace_c_o (a # b # s) =
     (if [a, b] = ''.c'' then ''.o'' @ replace_c_o s else a # replace_c_o (b # s))"
| "replace_c_o s = s"

definition obj_path :: "string \<Rightarrow> string" where
  "obj_path srcfile = os_path_join build_src [replace_c_o srcfile]"

definition compile_argv :: "string \<Rightarrow> string list \<Rightarrow> string set \<Rightarrow> string \<Rightarrow> string list" where
  "compile_argv CC cflags short_calls srcfile =
     [CC] @ cflags
     @ [if srcfile \<in> short_calls then ''-mno-long-calls'' else ''-mlong-calls'',
        os_path_join src [srcfile], ''-o'', obj_path srcfile]"

text \<open>
  \<^verbatim>\<open>long_calls\<close> is a Python set. It is modelled as the list of its elements without
  repetition, in the order they were added; Python leaves the order in which line 118
  goes through the set open, and nothing proved here depends on it.
\<close>

definition set_add :: "string list \<Rightarrow> string \<Rightarrow> string list" where
  "set_add xs x = (if x \<in> set xs then xs else xs @ [x])"

text \<open>
  Lines 92 to 107, the loop over the source files. The state is the trace and \<^verbatim>\<open>long_calls\<close>.
  \<open>Exit n\<close> is \<^verbatim>\<open>sys.exit(n)\<close>.
\<close>

fun compile_loop ::
  "world \<Rightarrow> string \<Rightarrow> string list \<Rightarrow> string set \<Rightarrow> string list \<Rightarrow> event list \<times> string list
    \<Rightarrow> (event list \<times> stop) + (event list \<times> string list)" where
  "compile_loop w CC cflags short_calls [] (tr, long_calls) = Inr (tr, long_calls)"
| "compile_loop w CC cflags short_calls (srcfile # rest) (tr, long_calls) =
     (let argv = compile_argv CC cflags short_calls srcfile
      in case returncode w tr argv of
           None \<Rightarrow> Inl (tr, Raised OSError)
         | Some exit_code \<Rightarrow>
             if exit_code \<noteq> 0
             then Inl (tr @ [Run argv exit_code, Print ''Error :: Compilation failed.''], Exit exit_code)
             else compile_loop w CC cflags short_calls rest
                    (tr @ [Run argv exit_code],
                     if srcfile \<notin> short_calls then set_add long_calls srcfile else long_calls))"

text \<open>Lines 91 and 92: the source files, when the directory exists.\<close>

definition source_files :: "world \<Rightarrow> string list" where
  "source_files w = (if path_exists w src then filter fnmatch_c (listdir w src) else [])"

text \<open>
  Lines 109 to 125. \<^verbatim>\<open>open(relocatable, "w")\<close> leaves an empty file; the linker runs only
  when \<^verbatim>\<open>long_calls\<close> is not empty. The result is the size of the blob afterwards, as line
  136 reads it: what the linker wrote (the world's \<open>linked_size\<close>), or 0.
\<close>

definition link_argv :: "string \<Rightarrow> string list \<Rightarrow> string list" where
  "link_argv LD long_calls = [LD] @ LDFLAGS @ map obj_path long_calls @ [''-o'', relocatable]"

definition link_step ::
  "world \<Rightarrow> string \<Rightarrow> event list \<times> string list \<Rightarrow> (event list \<times> stop) + (event list \<times> nat)" where
  "link_step w LD s =
     (case s of (tr, long_calls) \<Rightarrow>
        let tr1 = tr @ [Truncate relocatable]
        in if long_calls \<noteq> [] then
             (case returncode w tr1 (link_argv LD long_calls) of
                None \<Rightarrow> Inl (tr1, Raised OSError)
              | Some exit_code \<Rightarrow>
                  if exit_code \<noteq> 0
                  then Inl (tr1 @ [Run (link_argv LD long_calls) exit_code,
                                  Print ''Error :: Linking failed.''], Exit exit_code)
                  else Inr (tr1 @ [Run (link_argv LD long_calls) exit_code], linked_size w))
           else Inr (tr1, 0))"

text \<open>Lines 166 to 173: the assembler.\<close>

definition find_armips :: "world \<Rightarrow> event list \<Rightarrow> (event list \<times> stop) + (event list \<times> string)" where
  "find_armips w tr =
     (case environ w ''ARMIPS'' of
        Some armips \<Rightarrow> Inr (tr, armips)
      | None \<Rightarrow>
          (case which w ''armips'' of
             None \<Rightarrow> Inl (tr @ [Print ''Error :: Can't find armips.''], Exit 1)
           | Some armips \<Rightarrow> Inr (tr, armips)))"

text \<open>The decimal text of an integer, as an f-string renders it.\<close>

fun str_nat :: "nat \<Rightarrow> string" where
  "str_nat n =
     (if n < 10 then [''0123456789'' ! n]
      else str_nat (n div 10) @ [''0123456789'' ! (n mod 10)])"

declare str_nat.simps [simp del]

definition str_int :: "int \<Rightarrow> string" where
  "str_int i = (if i < 0 then ''-'' @ str_nat (nat (- i)) else str_nat (nat i))"

text \<open>Lines 179 to 182: what is printed into the derived source after the template.\<close>

definition marker :: string where
  "marker = [CHR 0x0A] @ ''// Beyond this point is autogenerated.'' @ [CHR 0x0A]"

definition allocation_label :: "int \<Rightarrow> string" where
  "allocation_label allocation = ''.definelabel allocation, '' @ str_int allocation @ [CHR 0x0A]"

definition define_labels :: "(string \<times> string option) list \<Rightarrow> string list" where
  "define_labels defs =
     map (\<lambda>(name, val). ''.definelabel '' @ name @ '', ''
            @ (case val of None \<Rightarrow> ''0'' | Some v \<Rightarrow> v) @ [CHR 0x0A]) defs"

definition assemble_argv :: "string \<Rightarrow> int \<Rightarrow> string list" where
  "assemble_argv ARMIPS needed_words =
     [ARMIPS, ''-sym'', ''test.sym'', os_path_join build [''main.asm''], ''-equ'',
      ''allocation_size'', str_int (push_bit 2 needed_words)]"

text \<open>
  Lines 133 to 196, from the size of the blob on: the allocation request, the copy of the
  image, the derived source with the located address, and the assembler. \<^verbatim>\<open>shutil.copy\<close> and
  \<^verbatim>\<open>open("main.asm")\<close> raise when their file does not exist. The locator is called while the
  derived source is being written, after the template and the marker; the second
  component of the result is \<open>None\<close> when the locator does not return. The image has been
  copied by then, so it exists when the locator opens it.
\<close>

definition allocate_and_assemble ::
  "world \<Rightarrow> (string \<times> string option) list \<Rightarrow> int \<Rightarrow> int \<Rightarrow> event list \<times> nat
    \<Rightarrow> event list \<times> stop option" where
  "allocate_and_assemble w defs free_space0 reserve s =
     (case s of (tr, st_size) \<Rightarrow>
        let needed_words = needed_words_of (int st_size) reserve;
            free_space = normalize_free_space free_space0
        in (case file_rom_gba w of
             None \<Rightarrow> (tr, Some (Raised FileNotFoundError))
           | Some rom \<Rightarrow>
             (case find_armips w (tr @ [Copy ''rom.gba'' ''test.gba'']) of
                Inl (tr1, st) \<Rightarrow> (tr1, Some st)
              | Inr (tr1, ARMIPS) \<Rightarrow>
                (case file_main_asm w of
                   None \<Rightarrow> (tr1, Some (Raised FileNotFoundError))
                 | Some template \<Rightarrow>
                   (case find_needed_words (Some rom) needed_words free_space of
                      None \<Rightarrow>
                        (tr1 @ [Write (os_path_join build [''main.asm'']) (template @ [marker])], None)
                    | Some (Inl e) \<Rightarrow>
                        (tr1 @ [Write (os_path_join build [''main.asm'']) (template @ [marker])],
                         Some (Raised e))
                    | Some (Inr allocation) \<Rightarrow>
                        let tr2 = tr1 @ [Write (os_path_join build [''main.asm''])
                                    (template @ [marker, allocation_label allocation] @ define_labels defs)];
                            argv = assemble_argv ARMIPS needed_words
                        in (case returncode w tr2 argv of
                              None \<Rightarrow> (tr2, Some (Raised OSError))
                            | Some exit_code \<Rightarrow>
                                if exit_code \<noteq> 0
                                then (tr2 @ [Run argv exit_code, Print ''Error :: Assembly failed.''],
                                      Some (Exit exit_code))
                                else (tr2 @ [Run argv exit_code], Some Finished)))))))"

text \<open>
  The script from line 27 on, stage after stage. A stage that stops the script gives the
  trace and how it stopped; otherwise the next stage goes on from its trace.
\<close>

definition merge_and_rest ::
  "world \<Rightarrow> config \<Rightarrow> string \<Rightarrow> int \<Rightarrow> int \<Rightarrow> event list \<times> string list \<Rightarrow> event list \<times> stop option" where
  "merge_and_rest w cfg LD free_space reserve s =
     (case link_step w LD s of
        Inl (tr, st) \<Rightarrow> (tr, Some st)
      | Inr s' \<Rightarrow> allocate_and_assemble w (cfg_defines cfg) free_space reserve s')"

definition compile_and_rest ::
  "world \<Rightarrow> config \<Rightarrow> string \<Rightarrow> string \<Rightarrow> string \<Rightarrow> int \<Rightarrow> int \<Rightarrow> event list \<Rightarrow> event list \<times> stop option" where
  "compile_and_rest w cfg CC LD optimization_level free_space reserve tr =
     (case compile_loop w CC (CFLAGS optimization_level (cfg_defines cfg)) (cfg_short_calls cfg)
             (source_files w) (tr, []) of
        Inl (tr', st) \<Rightarrow> (tr', Some st)
      | Inr s \<Rightarrow> merge_and_rest w cfg LD free_space reserve s)"

definition pipeline :: "world \<Rightarrow> config \<Rightarrow> event list \<times> stop option" where
  "pipeline w cfg =
     (case parse_config w cfg [] of
        Inl (tr, st) \<Rightarrow> (tr, Some st)
      | Inr (tr, free_space, reserve, optimization_level) \<Rightarrow>
        (case find_devkitarm w (clean_build tr) of
           Inl (tr', st) \<Rightarrow> (tr', Some st)
         | Inr (tr', CC, LD) \<Rightarrow>
             compile_and_rest w cfg CC LD optimization_level free_space reserve tr'))"

subsection \<open>Predicates on traces\<close>

text \<open>
  Every child process in the trace ended with status 0; and the shape of a trace that
  ends at a failed child process: all earlier ones ended with 0, the last one did not, only
  the diagnostic follows it, and its status is what the script exits with.
\<close>

definition runs_ok :: "event list \<Rightarrow> bool" where
  "runs_ok tr = (\<forall>argv c. Run argv c \<in> set tr \<longrightarrow> c = 0)"

definition failed_at :: "world \<Rightarrow> event list \<Rightarrow> stop option \<Rightarrow> bool" where
  "failed_at w tr st =
     (\<exists>pre argv c msg. tr = pre @ [Run argv c, Print msg] \<and> runs_ok pre
        \<and> returncode w pre argv = Some c \<and> c \<noteq> 0 \<and> st = Some (Exit c))"

subsection \<open>A small world to run the script in\<close>

text \<open>
  A world with the tools on the search path, a source directory with the given files, a
  16-byte image whose last three words are erased, and a one-line template; and a
  configuration that scans from the start of the image.
\<close>

definition demo_world :: "string list \<Rightarrow> (event list \<Rightarrow> string list \<Rightarrow> int option) \<Rightarrow> world" where
  "demo_world files rc =
     \<lparr>py_int = (\<lambda>base s. if (base, s) = (16, ''0x08000000'') then Some 0x08000000
                          else if (base, s) = (10, ''0'') then Some 0 else None),
      environ = (\<lambda>name. None),
      path_exists = (\<lambda>path. path = ''src''),
      which = (\<lambda>name. Some (''/usr/bin/'' @ name)),
      listdir = (\<lambda>path. files),
      returncode = rc,
      linked_size = 8,
      file_rom_gba = Some [0, 0, 0, 0, 0xFF, 0xFF, 0xFF, 0xFF, 0xFF, 0xFF, 0xFF, 0xFF, 0xFF, 0xFF, 0xFF, 0xFF],
      file_main_asm = Some [''.gba'' @ [CHR 0x0A]]\<rparr>"

definition demo_config :: "string set \<Rightarrow> config" where
  "demo_config short =
     \<lparr>cfg_free_space = Some ''0x08000000'', cfg_optimization_level = Some ''-O2'',
      cfg_reserve = Some ''0'', cfg_short_calls = short, cfg_defines = []\<rparr>"

section \<open>Alignment\<close>

lemma round_up_to_4_eq: "round_up_to_4 x = x + (- x) mod 4"
proof (induction x rule: round_up_to_4.induct)
  case (1 x)
  show ?case
  proof (cases "x mod 4 = 0")
    case True
    then have "round_up_to_4 x = x"
      by (subst round_up_to_4.simps) (simp add: and_3_eq_mod_4)
    moreover from True have "(- x) mod 4 = 0" by presburger
    ultimately show ?thesis by simp
  next
    case False
    then have "round_up_to_4 x = round_up_to_4 (x + 1)"
      by (subst round_up_to_4.simps) (simp add: and_3_eq_mod_4)
    also from False have "\<dots> = x + 1 + (- (x + 1)) mod 4"
      using "1.IH" by (simp add: and_3_eq_mod_4)
    also from False have "\<dots> = x + (- x) mod 4" by presburger
    finally show ?thesis .
  qed
qed

lemma round_up_to_4_cases:
  "x mod 4 = 0 \<Longrightarrow> round_up_to_4 x = x"
  "x mod 4 = 1 \<Longrightarrow> round_up_to_4 x = x + 3"
  "x mod 4 = 2 \<Longrightarrow> round_up_to_4 x = x + 2"
  "x mod 4 = 3 \<Longrightarrow> round_up_to_4 x = x + 1"
  unfolding round_up_to_4_eq by presburger+

lemma mod_4_cases: "(x::int) mod 4 = 0 \<or> x mod 4 = 1 \<or> x mod 4 = 2 \<or> x mod 4 = 3"
  by presburger

lemma mod_4_shift:
  "(x::int) mod 4 = 0 \<Longrightarrow>
     (x + 1) mod 4 = 1 \<and> (x + 2) mod 4 = 2 \<and> (x + 3) mod 4 = 3 \<and> (x + 4) mod 4 = 0"
  "(x::int) mod 4 = 1 \<Longrightarrow> (x + 1) mod 4 = 2 \<and> (x + 2) mod 4 = 3 \<and> (x + 3) mod 4 = 0"
  "(x::int) mod 4 = 2 \<Longrightarrow> (x + 1) mod 4 = 3 \<and> (x + 2) mod 4 = 0 \<and> (x + 3) mod 4 = 1"
  "(x::int) mod 4 = 3 \<Longrightarrow> (x + 1) mod 4 = 0 \<and> (x + 2) mod 4 = 1 \<and> (x + 3) mod 4 = 2"
  by presburger+

text \<open>
  C5. For non-negative \<open>sizeBytes\<close> and \<open>reserveBytes\<close> the computed number of words is the
  ceiling of \<open>(sizeBytes + reserveBytes) / 4\<close>, and when the sum is divisible by 4 it is
  exactly the quotient: no extra word is added.
\<close>

theorem needed_words_of_ceiling:
  assumes "0 \<le> sizeBytes" and "0 \<le> reserveBytes"
  shows "needed_words_of sizeBytes reserveBytes = \<lceil>real_of_int (sizeBytes + reserveBytes) / 4\<rceil>
    \<and> ((sizeBytes + reserveBytes) mod 4 = 0 \<longrightarrow>
         needed_words_of sizeBytes reserveBytes = (sizeBytes + reserveBytes) div 4)"
proof -
  define t where "t = sizeBytes + reserveBytes"
  have n: "needed_words_of sizeBytes reserveBytes = (t + (- t) mod 4) div 4"
    by (simp add: needed_words_of_def round_up_to_4_eq drop_bit_eq_div t_def)
  have "(t + (- t) mod 4) div 4 = (t + 3) div 4" by presburger
  moreover have "\<lceil>real_of_int t / 4\<rceil> = (t + 3) div 4" by linarith
  moreover have "t mod 4 = 0 \<longrightarrow> (t + 3) div 4 = t div 4" by presburger
  ultimately show ?thesis using n by (simp add: t_def)
qed

theorem needed_words_of_ceiling_witness:
  "needed_words_of 9 3 = \<lceil>real_of_int (9 + 3) / 4\<rceil> \<and> needed_words_of 9 3 = 3
   \<and> needed_words_of 9 4 = \<lceil>real_of_int (9 + 4) / 4\<rceil> \<and> needed_words_of 9 4 = 4"
proof -
  have a: "needed_words_of 9 3 = \<lceil>real_of_int (9 + 3) / 4\<rceil>"
    and b: "needed_words_of 9 3 = (9 + 3) div 4"
    using needed_words_of_ceiling [of 9 3] by simp_all
  have c: "needed_words_of 9 4 = \<lceil>real_of_int (9 + 4) / 4\<rceil>"
    using needed_words_of_ceiling [of 9 4] by simp
  have d: "\<lceil>real_of_int (9 + 4) / 4\<rceil> = (4::int)" by (simp add: ceiling_eq_iff)
  from a b c d show ?thesis by simp
qed

text \<open>
  C6, as the claim states it, fails: the four applications to \<open>addr\<close>, \<open>addr + 1\<close>,
  \<open>addr + 2\<close> and \<open>addr + 3\<close> do not agree at \<open>addr = 0\<close>, where aligning \<open>0\<close> gives \<open>0\<close> and
  aligning \<open>1\<close> gives \<open>4\<close>.
\<close>

theorem round_up_to_4_window_counterexample:
  "\<not> (round_up_to_4 0 = round_up_to_4 (0 + 1) \<and> round_up_to_4 (0 + 1) = round_up_to_4 (0 + 2)
      \<and> round_up_to_4 (0 + 2) = round_up_to_4 (0 + 3))"
  by (simp add: round_up_to_4_eq)

text \<open>
  C6, amended. Aligning is idempotent: an aligned address is returned unchanged, and
  aligning twice is aligning once. For every address, the result is the next multiple of
  4 that is at least the address. The applications to \<open>addr\<close>, \<open>addr + 1\<close>, \<open>addr + 2\<close> and
  \<open>addr + 3\<close> all agree exactly when \<open>addr mod 4 = 1\<close>; from an aligned address \<open>a\<close> on, it is
  \<open>a + 1\<close>, \<open>a + 2\<close>, \<open>a + 3\<close> and \<open>a + 4\<close> that all give \<open>a + 4\<close>.
\<close>

theorem round_up_to_4_next_multiple:
  "(a mod 4 = 0 \<longrightarrow> round_up_to_4 a = a
      \<and> round_up_to_4 (a + 1) = a + 4 \<and> round_up_to_4 (a + 2) = a + 4
      \<and> round_up_to_4 (a + 3) = a + 4 \<and> round_up_to_4 (a + 4) = a + 4)
   \<and> round_up_to_4 (round_up_to_4 addr) = round_up_to_4 addr
   \<and> round_up_to_4 addr mod 4 = 0 \<and> addr \<le> round_up_to_4 addr \<and> round_up_to_4 addr < addr + 4
   \<and> ((round_up_to_4 addr = round_up_to_4 (addr + 1)
        \<and> round_up_to_4 (addr + 1) = round_up_to_4 (addr + 2)
        \<and> round_up_to_4 (addr + 2) = round_up_to_4 (addr + 3)) \<longleftrightarrow> addr mod 4 = 1)"
proof -
  have 1: "a mod 4 = 0 \<longrightarrow> round_up_to_4 a = a
      \<and> round_up_to_4 (a + 1) = a + 4 \<and> round_up_to_4 (a + 2) = a + 4
      \<and> round_up_to_4 (a + 3) = a + 4 \<and> round_up_to_4 (a + 4) = a + 4"
    by (simp add: round_up_to_4_cases mod_4_shift)
  have 2: "round_up_to_4 (round_up_to_4 addr) = round_up_to_4 addr"
    unfolding round_up_to_4_eq by presburger
  have 3: "round_up_to_4 addr mod 4 = 0 \<and> addr \<le> round_up_to_4 addr \<and> round_up_to_4 addr < addr + 4"
    unfolding round_up_to_4_eq by presburger
  have 4: "(round_up_to_4 addr = round_up_to_4 (addr + 1)
        \<and> round_up_to_4 (addr + 1) = round_up_to_4 (addr + 2)
        \<and> round_up_to_4 (addr + 2) = round_up_to_4 (addr + 3)) \<longleftrightarrow> addr mod 4 = 1"
    using mod_4_cases [of addr]
    by (elim disjE) (simp_all add: round_up_to_4_cases mod_4_shift)
  from 1 2 3 4 show ?thesis by blast
qed

theorem round_up_to_4_next_multiple_witness:
  "(8::int) mod 4 = 0 \<and> round_up_to_4 8 = 8 \<and> round_up_to_4 (8 + 1) = 8 + 4
   \<and> round_up_to_4 (8 + 2) = 8 + 4 \<and> round_up_to_4 (8 + 3) = 8 + 4 \<and> round_up_to_4 (8 + 4) = 8 + 4
   \<and> round_up_to_4 (round_up_to_4 5) = round_up_to_4 5 \<and> round_up_to_4 5 = 8"
proof -
  have h: "(8::int) mod 4 = 0" by simp
  have "round_up_to_4 5 mod 4 = 0 \<and> 5 \<le> round_up_to_4 5 \<and> round_up_to_4 5 < 5 + 4"
    using round_up_to_4_next_multiple [of 8 5] by blast
  then have "round_up_to_4 5 = 8" by presburger
  with h show ?thesis using round_up_to_4_next_multiple [of 8 5] by simp
qed

section \<open>The free-space locator\<close>

subsection \<open>Unfolding the loop\<close>

lemma scan_loop_exit:
  "\<not> rec < needed_words \<Longrightarrow> scan_loop rom needed_words (pos, rec, start) = Some start"
  by (subst scan_loop.simps) simp

lemma scan_loop_step:
  "fst (snd s) < needed_words \<Longrightarrow>
   scan_loop rom needed_words s = scan_loop rom needed_words (scan_step rom s)"
  by (subst scan_loop.simps) simp

lemma scan_step_exhausted:
  "length rom \<le> pos \<Longrightarrow> scan_step rom (pos, rec, start) = (pos, rec, None)"
  by (simp add: scan_step_def erased_def)

lemma scan_steps_exhausted:
  "length rom \<le> pos \<Longrightarrow> fst (snd ((scan_step rom ^^ k) (pos, rec, start))) = rec"
  by (induction k arbitrary: start) (simp_all add: funpow_swap1 scan_step_exhausted)

lemma scan_loop_Some_reaches:
  assumes "scan_loop rom needed_words s = Some r"
  shows "\<exists>k. needed_words \<le> fst (snd ((scan_step rom ^^ k) s))"
proof (induction rule: scan_loop.raw_induct)
  case (1 scan_loop' rom needed_words s r)
  show ?case
  proof (cases "fst (snd s) < needed_words")
    case True
    obtain a b c where st: "scan_step rom s = (a, b, c)"
      by (cases "scan_step rom s")
    have "\<exists>k. needed_words \<le> fst (snd ((scan_step rom ^^ k) (a, b, c)))"
      using 1 True st by (auto simp: scan_loop_step)
    then obtain k where "needed_words \<le> fst (snd ((scan_step rom ^^ k) (scan_step rom s)))"
      by (auto simp: st)
    then have "needed_words \<le> fst (snd ((scan_step rom ^^ Suc k) s))"
      by (simp add: funpow_swap1)
    then show ?thesis ..
  next
    case False
    then have "needed_words \<le> fst (snd ((scan_step rom ^^ 0) s))" by simp
    then show ?thesis ..
  qed
qed (rule assms)

lemma reaches_scan_loop:
  "needed_words \<le> fst (snd ((scan_step rom ^^ k) s)) \<Longrightarrow> scan_loop rom needed_words s \<noteq> None"
proof (induction k arbitrary: s)
  case 0
  then show ?case by (subst scan_loop.simps) simp
next
  case (Suc k)
  show ?case
  proof (cases "fst (snd s) < needed_words")
    case True
    from Suc.prems have "needed_words \<le> fst (snd ((scan_step rom ^^ k) (scan_step rom s)))"
      by (simp add: funpow_swap1)
    then have "scan_loop rom needed_words (scan_step rom s) \<noteq> None" by (rule Suc.IH)
    with True show ?thesis by (simp add: scan_loop_step)
  next
    case False
    then show ?thesis by (subst scan_loop.simps) simp
  qed
qed

lemma scan_loop_terminates_iff:
  "scan_loop rom needed_words s \<noteq> None \<longleftrightarrow>
   (\<exists>k. needed_words \<le> fst (snd ((scan_step rom ^^ k) s)))"
  using scan_loop_Some_reaches reaches_scan_loop by blast

lemma scan_loop_exhausted:
  assumes "length rom \<le> pos" and "rec < needed_words"
  shows "scan_loop rom needed_words (pos, rec, start) = None"
proof (rule ccontr)
  assume "scan_loop rom needed_words (pos, rec, start) \<noteq> None"
  then obtain k where "needed_words \<le> fst (snd ((scan_step rom ^^ k) (pos, rec, start)))"
    using scan_loop_terminates_iff by blast
  with assms show False by (simp add: scan_steps_exhausted)
qed

subsection \<open>Runs of erased words\<close>

lemma erased_run_at_length: "erased_run_at rom p n \<Longrightarrow> 0 < n \<Longrightarrow> p + 4 * n \<le> length rom"
proof (induction n arbitrary: p)
  case 0
  then show ?case by simp
next
  case (Suc n)
  from Suc.prems have e: "take 4 (drop p rom) = erased" and r: "erased_run_at rom (p + 4) n"
    by simp_all
  from e have "length (take 4 (drop p rom)) = 4" by (simp add: erased_def)
  then have l: "p + 4 \<le> length rom" by simp
  show ?case
  proof (cases n)
    case 0
    with l show ?thesis by simp
  next
    case (Suc m)
    with Suc.IH [OF r] show ?thesis by simp
  qed
qed

lemma scan_step_erased_None:
  "take 4 (drop pos rom) = erased \<Longrightarrow>
   scan_step rom (pos, rec, None) = (pos + 4, if rec = 0 then 1 else rec, Some (int pos))"
  by (simp add: scan_step_def Let_def) (simp add: erased_def)

lemma scan_step_erased_Some:
  "take 4 (drop pos rom) = erased \<Longrightarrow>
   scan_step rom (pos, rec, Some st) = (pos + 4, rec + 1, Some st)"
  by (simp add: scan_step_def Let_def) (simp add: erased_def)

lemma scan_step_other:
  "take 4 (drop pos rom) \<noteq> erased \<Longrightarrow>
   scan_step rom (pos, rec, start) = (pos + length (take 4 (drop pos rom)), rec, None)"
  by (simp add: scan_step_def Let_def)

lemma scan_steps_run:
  "erased_run_at rom pos m \<Longrightarrow>
   (scan_step rom ^^ m) (pos, rec, Some st) = (pos + 4 * m, rec + int m, Some st)"
proof (induction m arbitrary: pos rec)
  case 0
  then show ?case by simp
next
  case (Suc m)
  then have "(scan_step rom ^^ m) (pos + 4, rec + 1, Some st) = (pos + 4 + 4 * m, rec + 1 + int m, Some st)"
    by simp
  with Suc.prems show ?case
    by (simp add: funpow_swap1 scan_step_erased_Some)
qed

lemma scan_steps_advance:
  "pos + 4 * k \<le> length rom \<Longrightarrow> 0 \<le> rec \<Longrightarrow>
   \<exists>rec' start'. (scan_step rom ^^ k) (pos, rec, start) = (pos + 4 * k, rec', start') \<and> 0 \<le> rec'"
proof (induction k arbitrary: pos rec start)
  case 0
  then show ?case by simp
next
  case (Suc k)
  from Suc.prems have len: "length (take 4 (drop pos rom)) = 4" by simp
  have "\<exists>r1 s1. scan_step rom (pos, rec, start) = (pos + 4, r1, s1) \<and> 0 \<le> r1"
  proof (cases "take 4 (drop pos rom) = erased")
    case True
    with Suc.prems show ?thesis
      by (cases start) (simp_all add: scan_step_erased_None scan_step_erased_Some)
  next
    case False
    with Suc.prems len show ?thesis by (simp add: scan_step_other)
  qed
  then obtain r1 s1 where st: "scan_step rom (pos, rec, start) = (pos + 4, r1, s1)" and r1: "0 \<le> r1"
    by blast
  from Suc.prems have "pos + 4 + 4 * k \<le> length rom" by simp
  from Suc.IH [OF this r1, of s1] st show ?case by (simp add: funpow_swap1 add.assoc)
qed

lemma scan_steps_run_reaches:
  assumes "erased_run_at rom pos (Suc m)" and "0 \<le> rec"
  shows "int (Suc m) \<le> fst (snd ((scan_step rom ^^ Suc m) (pos, rec, start)))"
proof -
  from assms(1) have e: "take 4 (drop pos rom) = erased" and r: "erased_run_at rom (pos + 4) m"
    by simp_all
  have "\<exists>r1 st. scan_step rom (pos, rec, start) = (pos + 4, r1, Some st) \<and> 1 \<le> r1"
    using e assms(2) by (cases start) (simp_all add: scan_step_erased_None scan_step_erased_Some)
  then obtain r1 st where s: "scan_step rom (pos, rec, start) = (pos + 4, r1, Some st)" and r1: "1 \<le> r1"
    by blast
  have "(scan_step rom ^^ Suc m) (pos, rec, start) = (scan_step rom ^^ m) (pos + 4, r1, Some st)"
    by (simp add: funpow_swap1 s)
  also have "\<dots> = (pos + 4 + 4 * m, r1 + int m, Some st)"
    by (rule scan_steps_run [OF r])
  finally show ?thesis using r1 by simp
qed

text \<open>An image with a sufficient run at or after the start offset: the loop returns.\<close>

lemma scan_loop_returns_if_run:
  assumes run: "erased_run_at rom (off + 4 * j) n" and n: "0 < n"
  shows "scan_loop rom (int n) (off, 0, None) \<noteq> None"
proof -
  obtain m where m: "n = Suc m" using n by (cases n) simp_all
  from erased_run_at_length [OF run n] have "off + 4 * j \<le> length rom" by simp
  from scan_steps_advance [OF this, of 0 None]
  obtain rec' start' where
    a: "(scan_step rom ^^ j) (off, 0, None) = (off + 4 * j, rec', start')" and r: "0 \<le> rec'"
    by auto
  have "(scan_step rom ^^ (Suc m + j)) (off, 0, None)
      = (scan_step rom ^^ Suc m) (off + 4 * j, rec', start')"
    by (simp only: funpow_add o_apply a)
  moreover have "int (Suc m) \<le> fst (snd ((scan_step rom ^^ Suc m) (off + 4 * j, rec', start')))"
    using run r unfolding m by (rule scan_steps_run_reaches)
  ultimately have "int n \<le> fst (snd ((scan_step rom ^^ (Suc m + j)) (off, 0, None)))"
    by (simp add: m)
  then show ?thesis by (rule reaches_scan_loop)
qed

lemma scan_loop_skip:
  "(\<And>i. i < k \<Longrightarrow> fst (snd ((scan_step rom ^^ i) s)) < needed_words) \<Longrightarrow>
   scan_loop rom needed_words s = scan_loop rom needed_words ((scan_step rom ^^ k) s)"
proof (induction k arbitrary: s)
  case 0
  then show ?case by simp
next
  case (Suc k)
  from Suc.prems [of 0] have "fst (snd s) < needed_words" by simp
  then have "scan_loop rom needed_words s = scan_loop rom needed_words (scan_step rom s)"
    by (rule scan_loop_step)
  also have "\<dots> = scan_loop rom needed_words ((scan_step rom ^^ k) (scan_step rom s))"
  proof (rule Suc.IH)
    fix i assume "i < k"
    then have "fst (snd ((scan_step rom ^^ Suc i) s)) < needed_words"
      by (intro Suc.prems) simp
    then show "fst (snd ((scan_step rom ^^ i) (scan_step rom s))) < needed_words"
      by (simp add: funpow_swap1)
  qed
  finally show ?case by (simp add: funpow_swap1)
qed

lemma scan_steps_skip:
  "(\<And>i. i < j \<Longrightarrow> take 4 (drop (off + 4 * i) rom) \<noteq> erased) \<Longrightarrow> off + 4 * j \<le> length rom \<Longrightarrow>
   (scan_step rom ^^ j) (off, rec, None) = (off + 4 * j, rec, None)"
proof (induction j)
  case 0
  then show ?case by simp
next
  case (Suc j)
  then have "(scan_step rom ^^ j) (off, rec, None) = (off + 4 * j, rec, None)" by simp
  moreover from Suc.prems have "take 4 (drop (off + 4 * j) rom) \<noteq> erased" by simp
  moreover from Suc.prems have "length (take 4 (drop (off + 4 * j) rom)) = 4" by simp
  ultimately show ?case by (simp add: scan_step_other)
qed

lemma erased_run_at_prefix: "erased_run_at rom p n \<Longrightarrow> i \<le> n \<Longrightarrow> erased_run_at rom p i"
proof (induction n arbitrary: p i)
  case 0
  then show ?case by simp
next
  case (Suc n)
  then show ?case by (cases i) simp_all
qed

text \<open>
  Where no erased word lies between the start offset and the first sufficient run, the
  loop returns the offset of that run.
\<close>

lemma scan_loop_first_run:
  assumes before: "\<And>i. i < j \<Longrightarrow> take 4 (drop (off + 4 * i) rom) \<noteq> erased"
    and run: "erased_run_at rom (off + 4 * j) n" and n: "0 < n"
  shows "scan_loop rom (int n) (off, 0, None) = Some (Some (int (off + 4 * j)))"
proof -
  define p where "p = off + 4 * j"
  obtain m where m: "n = Suc m" using n by (cases n) simp_all
  from run have e: "take 4 (drop p rom) = erased" and r: "erased_run_at rom (p + 4) m"
    by (simp_all add: m p_def)
  from erased_run_at_length [OF run n] have len: "off + 4 * j \<le> length rom" by simp
  have skip: "(scan_step rom ^^ i) (off, 0, None) = (off + 4 * i, 0, None)" if "i \<le> j" for i
    using that before len by (intro scan_steps_skip) simp_all
  have "scan_loop rom (int n) (off, 0, None) = scan_loop rom (int n) ((scan_step rom ^^ j) (off, 0, None))"
    using n by (intro scan_loop_skip) (simp add: skip)
  also have "\<dots> = scan_loop rom (int n) (p, 0, None)"
    by (simp add: skip p_def)
  also have "\<dots> = scan_loop rom (int n) (p + 4, 1, Some (int p))"
    using n scan_loop_step [of "(p, 0, None)" "int n" rom]
    by (simp add: scan_step_erased_None e)
  also have "\<dots> = scan_loop rom (int n) ((scan_step rom ^^ m) (p + 4, 1, Some (int p)))"
  proof (rule scan_loop_skip)
    fix i assume i: "i < m"
    then have "i \<le> m" by simp
    with r have "erased_run_at rom (p + 4) i" by (rule erased_run_at_prefix)
    then show "fst (snd ((scan_step rom ^^ i) (p + 4, 1, Some (int p)))) < int n"
      using i by (simp add: scan_steps_run m)
  qed
  also have "\<dots> = scan_loop rom (int n) (p + 4 + 4 * m, 1 + int m, Some (int p))"
    by (simp add: scan_steps_run [OF r])
  also have "\<dots> = Some (Some (int p))"
    by (rule scan_loop_exit) (simp add: m)
  finally show ?thesis by (simp add: p_def)
qed

lemma find_needed_words_first_run:
  assumes "offset_mask XOR free_space = int off"
    and "\<And>i. i < j \<Longrightarrow> take 4 (drop (off + 4 * i) rom) \<noteq> erased"
    and "erased_run_at rom (off + 4 * j) n" and "0 < n"
  shows "find_needed_words (Some rom) (int n) free_space = Some (Inr (int (off + 4 * j) XOR offset_mask))"
  using assms(1,4) scan_loop_first_run [OF assms(2,3,4)]
  by (simp add: find_needed_words_def)

lemma erased_nth: "i < 4 \<Longrightarrow> erased ! i = 0xFF"
  by (simp add: erased_def nth_Cons' )

lemma erased_run_at_nth: "erased_run_at rom p n \<Longrightarrow> i < 4 * n \<Longrightarrow> rom ! (p + i) = 0xFF"
proof (induction n arbitrary: p i)
  case 0
  then show ?case by simp
next
  case (Suc n)
  from Suc.prems have e: "take 4 (drop p rom) = erased" and r: "erased_run_at rom (p + 4) n"
    by simp_all
  show ?case
  proof (cases "i < 4")
    case True
    from e have "length (take 4 (drop p rom)) = 4" by (simp add: erased_def)
    then have "p + 4 \<le> length rom" by simp
    with True have "rom ! (p + i) = take 4 (drop p rom) ! i" by simp
    with e True show ?thesis by (simp add: erased_nth)
  next
    case False
    with Suc.prems have "i - 4 < 4 * n" by simp
    from Suc.IH [OF r this] False show ?thesis by (simp add: add.assoc)
  qed
qed

subsection \<open>The claims about the locator\<close>

text \<open>
  C3, as the claim states it, fails: with \<open>neededWords = 0\<close> the locator does not return
  the start address. At the default start address \<^verbatim>\<open>0x08800000\<close> it returns \<open>0\<close>.
\<close>

theorem find_needed_words_zero_counterexample:
  "find_needed_words (Some []) 0 0x08800000 \<noteq> Some (Inr 0x08800000)"
  by (simp add: find_needed_words_def)

text \<open>
  C3, amended. For every start address, when \<open>neededWords = 0\<close> the locator returns \<open>0\<close>
  (line 141, \<^verbatim>\<open>return 0\<close>), whatever the image holds and whether or not the image file exists:
  the image is not consulted at all.
\<close>

theorem find_needed_words_zero:
  "find_needed_words rom_gba 0 free_space = Some (Inr 0)"
  by (simp add: find_needed_words_def)

text \<open>
  C2. The claim says that a word that is not erased resets the count to 0 and clears the
  run start. The code clears the run start only: after two erased words and one word of
  zeros the count is still 2. (See also \<open>scan_step_other\<close>: the count is never changed by a
  word that is not erased.)
\<close>

theorem scan_step_keeps_count:
  "scan_step [0xFF, 0xFF, 0xFF, 0xFF, 0xFF, 0xFF, 0xFF, 0xFF, 0, 0, 0, 0]
     (scan_step [0xFF, 0xFF, 0xFF, 0xFF, 0xFF, 0xFF, 0xFF, 0xFF, 0, 0, 0, 0]
       (scan_step [0xFF, 0xFF, 0xFF, 0xFF, 0xFF, 0xFF, 0xFF, 0xFF, 0, 0, 0, 0] (0, 0, None)))
   = (12, 2, None)"
  by (simp add: scan_step_def erased_def)

text \<open>
  C1. The claim says that the locator returns the first run of at least \<open>neededWords\<close>
  erased words. On the image of two erased words, a word of zeros, two erased words, a
  word of zeros and three erased words, with \<open>neededWords = 3\<close> and the start at offset 0,
  the first such run is at offset 24; the code returns \<^verbatim>\<open>0x0800000C\<close>, offset 12, where only
  two erased words stand. (Where no erased word comes before the first sufficient run the
  code does return it: \<open>find_needed_words_first_run\<close>.)
\<close>

theorem find_needed_words_short_run:
  "find_needed_words (Some [0xFF, 0xFF, 0xFF, 0xFF, 0xFF, 0xFF, 0xFF, 0xFF, 0, 0, 0, 0,
      0xFF, 0xFF, 0xFF, 0xFF, 0xFF, 0xFF, 0xFF, 0xFF, 0, 0, 0, 0,
      0xFF, 0xFF, 0xFF, 0xFF, 0xFF, 0xFF, 0xFF, 0xFF, 0xFF, 0xFF, 0xFF, 0xFF]) 3 0x08000000 = Some (Inr 0x0800000C)
   \<and> \<not> erased_run_at [0xFF, 0xFF, 0xFF, 0xFF, 0xFF, 0xFF, 0xFF, 0xFF, 0, 0, 0, 0,
      0xFF, 0xFF, 0xFF, 0xFF, 0xFF, 0xFF, 0xFF, 0xFF, 0, 0, 0, 0,
      0xFF, 0xFF, 0xFF, 0xFF, 0xFF, 0xFF, 0xFF, 0xFF, 0xFF, 0xFF, 0xFF, 0xFF] 12 3
   \<and> spec_first_run [0xFF, 0xFF, 0xFF, 0xFF, 0xFF, 0xFF, 0xFF, 0xFF, 0, 0, 0, 0,
      0xFF, 0xFF, 0xFF, 0xFF, 0xFF, 0xFF, 0xFF, 0xFF, 0, 0, 0, 0,
      0xFF, 0xFF, 0xFF, 0xFF, 0xFF, 0xFF, 0xFF, 0xFF, 0xFF, 0xFF, 0xFF, 0xFF] 0 3 = Some 24"
proof -
  have "find_needed_words (Some [0xFF, 0xFF, 0xFF, 0xFF, 0xFF, 0xFF, 0xFF, 0xFF, 0, 0, 0, 0,
      0xFF, 0xFF, 0xFF, 0xFF, 0xFF, 0xFF, 0xFF, 0xFF, 0, 0, 0, 0,
      0xFF, 0xFF, 0xFF, 0xFF, 0xFF, 0xFF, 0xFF, 0xFF, 0xFF, 0xFF, 0xFF, 0xFF]) 3 0x08000000 = Some (Inr 0x0800000C)"
    by (simp add: find_needed_words_def offset_mask_def scan_loop.simps scan_step_def erased_def)
  moreover have "\<not> erased_run_at [0xFF, 0xFF, 0xFF, 0xFF, 0xFF, 0xFF, 0xFF, 0xFF, 0, 0, 0, 0,
      0xFF, 0xFF, 0xFF, 0xFF, 0xFF, 0xFF, 0xFF, 0xFF, 0, 0, 0, 0,
      0xFF, 0xFF, 0xFF, 0xFF, 0xFF, 0xFF, 0xFF, 0xFF, 0xFF, 0xFF, 0xFF, 0xFF] 12 3"
    by code_simp
  moreover have "spec_first_run [0xFF, 0xFF, 0xFF, 0xFF, 0xFF, 0xFF, 0xFF, 0xFF, 0, 0, 0, 0,
      0xFF, 0xFF, 0xFF, 0xFF, 0xFF, 0xFF, 0xFF, 0xFF, 0, 0, 0, 0,
      0xFF, 0xFF, 0xFF, 0xFF, 0xFF, 0xFF, 0xFF, 0xFF, 0xFF, 0xFF, 0xFF, 0xFF] 0 3 = Some 24"
    by code_simp
  ultimately show ?thesis by blast
qed

text \<open>
  C4. The claim says that the locator does not return on an image that has no sufficient
  run at or after the start offset. The image of two erased words, a word of zeros and two
  erased words has no run of three erased words at any offset, and with \<open>neededWords = 3\<close>
  the code returns \<^verbatim>\<open>0x0800000C\<close> on it. (The rest of the claim holds: the loop returns exactly
  when the count reaches \<open>neededWords\<close>, \<open>scan_loop_terminates_iff\<close>; it never returns once
  the image is exhausted, \<open>scan_loop_exhausted\<close>; and it returns on every image that has a
  sufficient run, \<open>scan_loop_returns_if_run\<close>.)
\<close>

theorem find_needed_words_returns_without_run:
  "find_needed_words (Some [0xFF, 0xFF, 0xFF, 0xFF, 0xFF, 0xFF, 0xFF, 0xFF, 0, 0, 0, 0,
      0xFF, 0xFF, 0xFF, 0xFF, 0xFF, 0xFF, 0xFF, 0xFF]) 3 0x08000000 = Some (Inr 0x0800000C)
   \<and> spec_first_run [0xFF, 0xFF, 0xFF, 0xFF, 0xFF, 0xFF, 0xFF, 0xFF, 0, 0, 0, 0,
      0xFF, 0xFF, 0xFF, 0xFF, 0xFF, 0xFF, 0xFF, 0xFF] 0 3 = None
   \<and> (\<forall>p. \<not> erased_run_at [0xFF, 0xFF, 0xFF, 0xFF, 0xFF, 0xFF, 0xFF, 0xFF, 0, 0, 0, 0,
      0xFF, 0xFF, 0xFF, 0xFF, 0xFF, 0xFF, 0xFF, 0xFF] p 3)"
proof -
  have "find_needed_words (Some [0xFF, 0xFF, 0xFF, 0xFF, 0xFF, 0xFF, 0xFF, 0xFF, 0, 0, 0, 0,
      0xFF, 0xFF, 0xFF, 0xFF, 0xFF, 0xFF, 0xFF, 0xFF]) 3 0x08000000 = Some (Inr 0x0800000C)"
    by (simp add: find_needed_words_def offset_mask_def scan_loop.simps scan_step_def erased_def)
  moreover have "spec_first_run [0xFF, 0xFF, 0xFF, 0xFF, 0xFF, 0xFF, 0xFF, 0xFF, 0, 0, 0, 0,
      0xFF, 0xFF, 0xFF, 0xFF, 0xFF, 0xFF, 0xFF, 0xFF] 0 3 = None"
    by code_simp
  moreover have "\<not> erased_run_at [0xFF, 0xFF, 0xFF, 0xFF, 0xFF, 0xFF, 0xFF, 0xFF, 0, 0, 0, 0,
      0xFF, 0xFF, 0xFF, 0xFF, 0xFF, 0xFF, 0xFF, 0xFF] p 3" for p
  proof
    assume run: "erased_run_at [0xFF, 0xFF, 0xFF, 0xFF, 0xFF, 0xFF, 0xFF, 0xFF, 0, 0, 0, 0,
      0xFF, 0xFF, 0xFF, 0xFF, 0xFF, 0xFF, 0xFF, 0xFF] p 3"
    from erased_run_at_length [OF run] have "p \<le> 8" by simp
    then have "8 - p < 4 * 3" and "p + (8 - p) = 8" by simp_all
    with erased_run_at_nth [OF run, of "8 - p"] show False by simp
  qed
  ultimately show ?thesis by blast
qed

section \<open>The pipeline: stages, failures and the merge\<close>

subsection \<open>Traces of the stages\<close>

lemma runs_ok_Nil [simp]: "runs_ok []"
  by (simp add: runs_ok_def)

lemma runs_ok_snoc [simp]:
  "runs_ok (tr @ [e]) \<longleftrightarrow> runs_ok tr \<and> (\<forall>argv c. e = Run argv c \<longrightarrow> c = 0)"
  by (auto simp: runs_ok_def)

lemma runs_ok_append [simp]: "runs_ok (tr @ tr') \<longleftrightarrow> runs_ok tr \<and> runs_ok tr'"
  by (auto simp: runs_ok_def)

lemma runs_ok_Cons [simp]:
  "runs_ok (e # tr) \<longleftrightarrow> (\<forall>argv c. e = Run argv c \<longrightarrow> c = 0) \<and> runs_ok tr"
  by (auto simp: runs_ok_def)

lemma failed_atI:
  "runs_ok pre \<Longrightarrow> returncode w pre argv = Some c \<Longrightarrow> c \<noteq> 0 \<Longrightarrow>
   failed_at w (pre @ [Run argv c, Print msg]) (Some (Exit c))"
  by (auto simp: failed_at_def)

lemma parse_config_trace:
  "parse_config w cfg tr = Inl (tr', st) \<Longrightarrow> runs_ok tr \<Longrightarrow> runs_ok tr'"
  "parse_config w cfg tr = Inr (tr', x) \<Longrightarrow> tr' = tr"
  by (auto simp: parse_config_def split: option.splits if_splits)

lemma find_devkitarm_trace:
  "find_devkitarm w tr = Inl (tr', st) \<Longrightarrow> runs_ok tr \<Longrightarrow> runs_ok tr'"
  "find_devkitarm w tr = Inr (tr', x) \<Longrightarrow> tr' = tr"
  by (auto simp: find_devkitarm_def split: option.splits if_splits)

lemma find_armips_trace:
  "find_armips w tr = Inl (tr', st) \<Longrightarrow> runs_ok tr \<Longrightarrow> runs_ok tr'"
  "find_armips w tr = Inr (tr', x) \<Longrightarrow> tr' = tr"
  by (auto simp: find_armips_def split: option.splits if_splits)

lemma compile_loop_trace:
  "runs_ok tr \<Longrightarrow>
   (case compile_loop w CC cflags short_calls files (tr, long_calls) of
      Inl (tr', st) \<Rightarrow> runs_ok tr' \<or> failed_at w tr' (Some st)
    | Inr (tr', long_calls') \<Rightarrow> runs_ok tr')"
proof (induction files arbitrary: tr long_calls)
  case Nil
  then show ?case by simp
next
  case (Cons srcfile rest)
  let ?argv = "compile_argv CC cflags short_calls srcfile"
  show ?case
  proof (cases "returncode w tr ?argv")
    case None
    with Cons.prems show ?thesis by (simp add: Let_def)
  next
    case (Some c)
    show ?thesis
    proof (cases "c = 0")
      case True
      with Cons.prems have "runs_ok (tr @ [Run ?argv c])" by simp
      from Cons.IH [OF this] Some True show ?thesis by (simp add: Let_def)
    next
      case False
      with Cons.prems Some failed_atI [of tr w ?argv c] show ?thesis
        by (simp add: Let_def)
    qed
  qed
qed

lemma link_step_trace:
  "runs_ok tr \<Longrightarrow>
   (case link_step w LD (tr, long_calls) of
      Inl (tr', st) \<Rightarrow> runs_ok tr' \<or> failed_at w tr' (Some st)
    | Inr (tr', n) \<Rightarrow> runs_ok tr')"
  using failed_atI [of "tr @ [Truncate relocatable]" w "link_argv LD long_calls"]
  by (auto simp: link_step_def Let_def split: option.splits)

lemma allocate_and_assemble_trace:
  assumes "runs_ok tr"
  shows "(case allocate_and_assemble w defs free_space reserve (tr, n) of
            (tr', st) \<Rightarrow> runs_ok tr' \<or> failed_at w tr' st)"
proof (cases "file_rom_gba w")
  case None
  with assms show ?thesis by (simp add: allocate_and_assemble_def Let_def)
next
  case rom: (Some rom)
  show ?thesis
  proof (cases "find_armips w (tr @ [Copy ''rom.gba'' ''test.gba''])")
    case (Inl a)
    obtain tr1 st where a: "a = (tr1, st)" by (cases a)
    from Inl assms have "runs_ok tr1" unfolding a by (auto dest: find_armips_trace(1))
    with rom Inl a show ?thesis by (simp add: allocate_and_assemble_def Let_def)
  next
    case (Inr b)
    obtain tr1 ARMIPS where b: "b = (tr1, ARMIPS)" by (cases b)
    from Inr have tr1: "tr1 = tr @ [Copy ''rom.gba'' ''test.gba'']"
      unfolding b by (rule find_armips_trace(2))
    with assms have ok1: "runs_ok tr1" by simp
    show ?thesis
    proof (cases "file_main_asm w")
      case None
      with rom Inr b ok1 show ?thesis by (simp add: allocate_and_assemble_def Let_def)
    next
      case template: (Some template)
      let ?nw = "needed_words_of (int n) reserve"
      show ?thesis
      proof (cases "find_needed_words (Some rom) ?nw (normalize_free_space free_space)")
        case None
        with rom Inr b ok1 template show ?thesis by (simp add: allocate_and_assemble_def Let_def)
      next
        case (Some r)
        show ?thesis
        proof (cases r)
          case (Inl e)
          with Some rom Inr b ok1 template show ?thesis
            by (simp add: allocate_and_assemble_def Let_def)
        next
          case alloc: (Inr allocation)
          let ?tr2 = "tr1 @ [Write (os_path_join build [''main.asm''])
                        (template @ [marker, allocation_label allocation] @ define_labels defs)]"
          let ?argv = "assemble_argv ARMIPS ?nw"
          from ok1 have ok2: "runs_ok ?tr2" by simp
          show ?thesis
          proof (cases "returncode w ?tr2 ?argv")
            case None
            with alloc Some rom Inr b ok2 template show ?thesis
              by (simp add: allocate_and_assemble_def Let_def)
          next
            case code: (Some c)
            show ?thesis
            proof (cases "c = 0")
              case True
              with code alloc Some rom Inr b ok2 template show ?thesis
                by (simp add: allocate_and_assemble_def Let_def)
            next
              case False
              with code alloc Some rom Inr b template failed_atI [OF ok2 code False] show ?thesis
                by (simp add: allocate_and_assemble_def Let_def)
            qed
          qed
        qed
      qed
    qed
  qed
qed

lemma merge_and_rest_trace:
  assumes "runs_ok tr"
  shows "(case merge_and_rest w cfg LD free_space reserve (tr, long_calls) of
            (tr', st) \<Rightarrow> runs_ok tr' \<or> failed_at w tr' st)"
proof (cases "link_step w LD (tr, long_calls)")
  case (Inl a)
  obtain tr' st where a: "a = (tr', st)" by (cases a)
  with Inl link_step_trace [OF assms, of w LD long_calls]
  have "runs_ok tr' \<or> failed_at w tr' (Some st)" by simp
  with Inl a show ?thesis by (simp add: merge_and_rest_def)
next
  case (Inr b)
  obtain tr' n where b: "b = (tr', n)" by (cases b)
  with Inr link_step_trace [OF assms, of w LD long_calls] have "runs_ok tr'" by simp
  from allocate_and_assemble_trace [OF this] Inr b show ?thesis
    by (simp add: merge_and_rest_def)
qed

lemma compile_and_rest_trace:
  assumes "runs_ok tr"
  shows "(case compile_and_rest w cfg CC LD optimization_level free_space reserve tr of
            (tr', st) \<Rightarrow> runs_ok tr' \<or> failed_at w tr' st)"
proof (cases "compile_loop w CC (CFLAGS optimization_level (cfg_defines cfg)) (cfg_short_calls cfg)
                (source_files w) (tr, [])")
  case (Inl a)
  obtain tr' st where a: "a = (tr', st)" by (cases a)
  with Inl compile_loop_trace [OF assms, of w CC "CFLAGS optimization_level (cfg_defines cfg)"
      "cfg_short_calls cfg" "source_files w" "[]"]
  have "runs_ok tr' \<or> failed_at w tr' (Some st)" by simp
  with Inl a show ?thesis by (simp add: compile_and_rest_def)
next
  case (Inr b)
  obtain tr' long_calls where b: "b = (tr', long_calls)" by (cases b)
  with Inr compile_loop_trace [OF assms, of w CC "CFLAGS optimization_level (cfg_defines cfg)"
      "cfg_short_calls cfg" "source_files w" "[]"]
  have "runs_ok tr'" by simp
  from merge_and_rest_trace [OF this] Inr b show ?thesis
    by (simp add: compile_and_rest_def)
qed

lemma pipeline_trace:
  "(case pipeline w cfg of (tr, st) \<Rightarrow> runs_ok tr \<or> failed_at w tr st)"
proof (cases "parse_config w cfg []")
  case (Inl a)
  obtain tr st where a: "a = (tr, st)" by (cases a)
  from Inl have "runs_ok tr" unfolding a by (auto dest: parse_config_trace(1))
  with Inl a show ?thesis by (simp add: pipeline_def)
next
  case (Inr b)
  obtain tr free_space reserve optimization_level
    where b: "b = (tr, free_space, reserve, optimization_level)" by (cases b)
  from Inr have tr: "tr = []" unfolding b by (rule parse_config_trace(2))
  have ok: "runs_ok (clean_build tr)" by (simp add: tr clean_build_def)
  show ?thesis
  proof (cases "find_devkitarm w (clean_build tr)")
    case (Inl a)
    obtain tr' st where a: "a = (tr', st)" by (cases a)
    from Inl ok have "runs_ok tr'" unfolding a by (auto dest: find_devkitarm_trace(1))
    with Inl a Inr b show ?thesis by (simp add: pipeline_def)
  next
    case tools: (Inr c)
    obtain tr' CC LD where c: "c = (tr', CC, LD)" by (cases c)
    from tools have "tr' = clean_build tr" unfolding c by (rule find_devkitarm_trace(2))
    with ok have "runs_ok tr'" by simp
    from compile_and_rest_trace [OF this] tools c Inr b show ?thesis
      by (simp add: pipeline_def)
  qed
qed

lemma demo_world_sel:
  "py_int (demo_world files rc) = (\<lambda>base s. if (base, s) = (16, ''0x08000000'') then Some 0x08000000
                          else if (base, s) = (10, ''0'') then Some 0 else None)"
  "environ (demo_world files rc) = (\<lambda>name. None)"
  "path_exists (demo_world files rc) = (\<lambda>path. path = ''src'')"
  "which (demo_world files rc) = (\<lambda>name. Some (''/usr/bin/'' @ name))"
  "listdir (demo_world files rc) = (\<lambda>path. files)"
  "returncode (demo_world files rc) = rc"
  "linked_size (demo_world files rc) = 8"
  "file_rom_gba (demo_world files rc)
     = Some [0, 0, 0, 0, 0xFF, 0xFF, 0xFF, 0xFF, 0xFF, 0xFF, 0xFF, 0xFF, 0xFF, 0xFF, 0xFF, 0xFF]"
  "file_main_asm (demo_world files rc) = Some [''.gba'' @ [CHR 0x0A]]"
  by (simp_all add: demo_world_def)

lemmas pipeline_eval =
  pipeline_def parse_config_def understood_levels_def clean_build_def find_devkitarm_def
  compile_and_rest_def source_files_def fnmatch_c_def suffix_to_prefix CFLAGS_def compile_argv_def
  os_path_join_def join2_def src_def build_def build_src_def obj_path_def Let_def
  merge_and_rest_def link_step_def link_argv_def LDFLAGS_def relocatable_def
  allocate_and_assemble_def find_armips_def assemble_argv_def set_add_def

subsection \<open>Stage failures\<close>

text \<open>
  C7. In every run in which a child process (compiler, linker or assembler) ends with a
  status other than 0, the script exits with exactly that status (\<open>Exit c\<close> is
  \<^verbatim>\<open>sys.exit(c)\<close>), the failed invocation is the last one of the run, followed by the one-line
  diagnostic only (no later stage), and every invocation before it ended with 0 (so none
  was retried).
\<close>

theorem pipeline_stops_at_failed_tool:
  assumes "pipeline w cfg = (tr, st)" and "Run argv c \<in> set tr" and "c \<noteq> 0"
  shows "st = Some (Exit c)
    \<and> (\<exists>pre msg. tr = pre @ [Run argv c, Print msg] \<and> returncode w pre argv = Some c \<and> runs_ok pre)"
proof -
  from assms(2,3) have "\<not> runs_ok tr" by (auto simp: runs_ok_def)
  with pipeline_trace [of w cfg] assms(1) have "failed_at w tr st" by simp
  then obtain pre argv' c' msg where tr: "tr = pre @ [Run argv' c', Print msg]"
    and pre: "runs_ok pre" and rc: "returncode w pre argv' = Some c'" and st: "st = Some (Exit c')"
    by (auto simp: failed_at_def)
  from assms(2,3) pre have "Run argv c = Run argv' c'"
    unfolding tr by (auto simp: runs_ok_def)
  then have "argv = argv'" and "c = c'" by simp_all
  with tr pre rc st show ?thesis by auto
qed

theorem pipeline_stops_at_failed_tool_witness:
  "pipeline (demo_world [''main.c'', ''notes.txt'']
       (\<lambda>tr argv. if hd argv = ''/usr/bin/arm-none-eabi-ld'' then Some 1 else Some 0)) (demo_config {})
     = ([Rmtree ''build'', Mkdir ''build'', Mkdir ''build/src'',
         Run [''/usr/bin/arm-none-eabi-gcc'', ''-O2'', ''-Wall'', ''-Wextra'', ''-mthumb'',
              ''-mno-thumb-interwork'', ''-fno-inline'', ''-fno-builtin'', ''-std=c11'',
              ''-mcpu=arm7tdmi'', ''-march=armv4t'', ''-mtune=arm7tdmi'', ''-c'', ''-mlong-calls'',
              ''src/main.c'', ''-o'', ''build/src/main.o''] 0,
         Truncate ''build/src/relocatable.o'',
         Run [''/usr/bin/arm-none-eabi-ld'', ''--relocatable'', ''build/src/main.o'', ''-o'',
              ''build/src/relocatable.o''] 1,
         Print ''Error :: Linking failed.''],
        Some (Exit 1))
   \<and> (\<exists>pre msg.
         fst (pipeline (demo_world [''main.c'', ''notes.txt'']
                (\<lambda>tr argv. if hd argv = ''/usr/bin/arm-none-eabi-ld'' then Some 1 else Some 0)) (demo_config {}))
           = pre @ [Run [''/usr/bin/arm-none-eabi-ld'', ''--relocatable'', ''build/src/main.o'', ''-o'',
                         ''build/src/relocatable.o''] 1, Print msg]
         \<and> runs_ok pre)"
proof -
  let ?w = "demo_world [''main.c'', ''notes.txt'']
       (\<lambda>tr argv. if hd argv = ''/usr/bin/arm-none-eabi-ld'' then Some 1 else Some 0)"
  let ?ld = "[''/usr/bin/arm-none-eabi-ld'', ''--relocatable'', ''build/src/main.o'', ''-o'',
              ''build/src/relocatable.o'']"
  let ?tr = "[Rmtree ''build'', Mkdir ''build'', Mkdir ''build/src'',
         Run [''/usr/bin/arm-none-eabi-gcc'', ''-O2'', ''-Wall'', ''-Wextra'', ''-mthumb'',
              ''-mno-thumb-interwork'', ''-fno-inline'', ''-fno-builtin'', ''-std=c11'',
              ''-mcpu=arm7tdmi'', ''-march=armv4t'', ''-mtune=arm7tdmi'', ''-c'', ''-mlong-calls'',
              ''src/main.c'', ''-o'', ''build/src/main.o''] 0,
         Truncate ''build/src/relocatable.o'', Run ?ld 1, Print ''Error :: Linking failed.'']"
  have run: "pipeline ?w (demo_config {}) = (?tr, Some (Exit 1))"
    by (simp add: pipeline_eval demo_world_sel demo_config_def)
  have "Run ?ld 1 \<in> set ?tr" by simp
  from pipeline_stops_at_failed_tool [OF run this] run show ?thesis by auto
qed

subsection \<open>Calling conventions and the merge input\<close>

lemma set_set_add [simp]: "set (set_add xs x) = insert x (set xs)"
  by (auto simp: set_add_def)

lemma compile_loop_success:
  "compile_loop w CC cflags short_calls files (tr, long_calls) = Inr (tr', long_calls') \<Longrightarrow>
   tr' = tr @ map (\<lambda>f. Run (compile_argv CC cflags short_calls f) 0) files
   \<and> set long_calls' = set long_calls \<union> {f \<in> set files. f \<notin> short_calls}"
proof (induction files arbitrary: tr long_calls)
  case Nil
  then show ?case by simp
next
  case (Cons srcfile rest)
  let ?argv = "compile_argv CC cflags short_calls srcfile"
  from Cons.prems have z: "returncode w tr ?argv = Some 0"
    by (simp add: Let_def split: option.splits if_splits)
  with Cons.prems have
    "compile_loop w CC cflags short_calls rest
       (tr @ [Run ?argv 0], if srcfile \<notin> short_calls then set_add long_calls srcfile else long_calls)
     = Inr (tr', long_calls')"
    by (simp add: Let_def)
  from Cons.IH [OF this] show ?case by auto
qed

lemma compile_argv_flag:
  "compile_argv CC cflags short_calls srcfile ! (Suc (length cflags))
     = (if srcfile \<in> short_calls then ''-mno-long-calls'' else ''-mlong-calls'')"
  by (simp add: compile_argv_def nth_append)

text \<open>
  When every compilation succeeds, each file is compiled once with the flag its membership
  in \<open>short_calls\<close> selects, and the objects passed to the linker are those of exactly the
  files outside \<open>short_calls\<close>.
\<close>

lemma merge_inputs:
  assumes "compile_loop w CC cflags short_calls files (tr, []) = Inr (tr', long_calls)"
  shows "tr' = tr @ map (\<lambda>f. Run (compile_argv CC cflags short_calls f) 0) files"
    and "set (map obj_path long_calls) = obj_path ` {f \<in> set files. f \<notin> short_calls}"
    and "f \<in> set files \<Longrightarrow> f \<notin> short_calls \<Longrightarrow> obj_path f \<in> set (link_argv LD long_calls)"
    and "inj_on obj_path (set files) \<Longrightarrow> f \<in> set files \<Longrightarrow> f \<in> short_calls \<Longrightarrow>
         obj_path f \<notin> set (map obj_path long_calls)"
proof -
  from compile_loop_success [OF assms]
  have tr: "tr' = tr @ map (\<lambda>f. Run (compile_argv CC cflags short_calls f) 0) files"
    and lc: "set long_calls = {f \<in> set files. f \<notin> short_calls}" by simp_all
  show "tr' = tr @ map (\<lambda>f. Run (compile_argv CC cflags short_calls f) 0) files" by (rule tr)
  show "set (map obj_path long_calls) = obj_path ` {f \<in> set files. f \<notin> short_calls}"
    using lc by simp
  show "obj_path f \<in> set (link_argv LD long_calls)" if "f \<in> set files" "f \<notin> short_calls"
    using that lc by (auto simp: link_argv_def)
  show "obj_path f \<notin> set (map obj_path long_calls)"
    if "inj_on obj_path (set files)" "f \<in> set files" "f \<in> short_calls"
  proof
    assume "obj_path f \<in> set (map obj_path long_calls)"
    then obtain g where g: "g \<in> set long_calls" "obj_path g = obj_path f" by auto
    with lc have "g \<in> set files" "g \<notin> short_calls" by auto
    with that g have "g = f" by (auto dest: inj_onD)
    with \<open>g \<notin> short_calls\<close> that show False by simp
  qed
qed

text \<open>
  C8. The claim says that the object of a source file in \<open>shortCallFiles\<close> is excluded from
  the merge input. The two source files \<^verbatim>\<open>x.c.c\<close>, in \<open>shortCallFiles\<close>, and \<^verbatim>\<open>x.o.c\<close>, not in it,
  are both compiled to \<^verbatim>\<open>build/src/x.o.o\<close>, since line 99 replaces every \<^verbatim>\<open>.c\<close> of the name,
  and that object is passed to the linker. (With object names that differ from file to
  file, the flags and the merge input are as the claim says: \<open>merge_inputs\<close>.)
\<close>

theorem short_call_object_reaches_linker:
  "pipeline (demo_world [''x.c.c'', ''x.o.c''] (\<lambda>tr argv. Some 0)) (demo_config {''x.c.c''}) =
   ([Rmtree ''build'', Mkdir ''build'', Mkdir ''build/src'',
     Run [''/usr/bin/arm-none-eabi-gcc'', ''-O2'', ''-Wall'', ''-Wextra'', ''-mthumb'',
          ''-mno-thumb-interwork'', ''-fno-inline'', ''-fno-builtin'', ''-std=c11'',
          ''-mcpu=arm7tdmi'', ''-march=armv4t'', ''-mtune=arm7tdmi'', ''-c'', ''-mno-long-calls'',
          ''src/x.c.c'', ''-o'', ''build/src/x.o.o''] 0,
     Run [''/usr/bin/arm-none-eabi-gcc'', ''-O2'', ''-Wall'', ''-Wextra'', ''-mthumb'',
          ''-mno-thumb-interwork'', ''-fno-inline'', ''-fno-builtin'', ''-std=c11'',
          ''-mcpu=arm7tdmi'', ''-march=armv4t'', ''-mtune=arm7tdmi'', ''-c'', ''-mlong-calls'',
          ''src/x.o.c'', ''-o'', ''build/src/x.o.o''] 0,
     Truncate ''build/src/relocatable.o'',
     Run [''/usr/bin/arm-none-eabi-ld'', ''--relocatable'', ''build/src/x.o.o'', ''-o'',
          ''build/src/relocatable.o''] 0,
     Copy ''rom.gba'' ''test.gba'',
     Write ''build/main.asm'' [''.gba'' @ [CHR 0x0A], marker, allocation_label 0x08000004],
     Run [''/usr/bin/armips'', ''-sym'', ''test.sym'', ''build/main.asm'', ''-equ'', ''allocation_size'', ''8''] 0],
    Some Finished)
   \<and> obj_path ''x.c.c'' = ''build/src/x.o.o''"
proof -
  have "find_needed_words
      (Some [0, 0, 0, 0, 0xFF, 0xFF, 0xFF, 0xFF, 0xFF, 0xFF, 0xFF, 0xFF, 0xFF, 0xFF, 0xFF, 0xFF])
      2 0x08000000 = Some (Inr 0x08000004)"
    by (simp add: find_needed_words_def offset_mask_def scan_loop.simps scan_step_def erased_def)
  moreover have "needed_words_of 8 0 = 2" "normalize_free_space 0x08000000 = 0x08000000"
    by (simp_all add: needed_words_of_def normalize_free_space_def offset_mask_def round_up_to_4_eq)
  moreover have "str_int 8 = ''8''"
    by (simp add: str_int_def str_nat.simps)
  ultimately show ?thesis
    by (simp add: pipeline_eval demo_world_sel demo_config_def define_labels_def)
qed

subsection \<open>An empty set of long-call files\<close>

lemma compile_loop_short_only:
  assumes "compile_loop w CC cflags short_calls files (tr, []) = Inr (tr', long_calls)"
    and "\<forall>f \<in> set files. f \<in> short_calls"
  shows "long_calls = []"
proof -
  from compile_loop_success [OF assms(1)] assms(2) have "set long_calls = {}" by auto
  then show ?thesis by simp
qed

text \<open>
  C9. When the configuration is accepted, the tools are found, every compilation succeeds
  and every source file is in \<open>shortCallFiles\<close>, the set of long-call files is empty. The
  merge stage then makes the blob file, empty, and runs no process: its only event is the
  truncation. The script goes on: with the image and the template present, the assembler
  found and the locator returning an address, it copies the image, writes the derived
  source with that address and runs the assembler with the allocation size of
  \<open>needed_words_of 0 reserve\<close> words, ending as the assembler's status says. The size
  computation is the one of every other blob, at size 0: the round-up of the reserve
  alone, shifted, which is the ceiling of a quarter of a non-negative reserve.
\<close>

theorem empty_long_calls_zero_blob:
  assumes "parse_config w cfg [] = Inr (tr0, free_space, reserve, optimization_level)"
    and "find_devkitarm w (clean_build tr0) = Inr (tr1, CC, LD)"
    and "compile_loop w CC (CFLAGS optimization_level (cfg_defines cfg)) (cfg_short_calls cfg)
           (source_files w) (tr1, []) = Inr (tr2, long_calls)"
    and "\<forall>f \<in> set (source_files w). f \<in> cfg_short_calls cfg"
    and "file_rom_gba w = Some rom"
    and "find_armips w (tr2 @ [Truncate relocatable, Copy ''rom.gba'' ''test.gba'']) = Inr (tr3, ARMIPS)"
    and "file_main_asm w = Some template"
    and "find_needed_words (Some rom) (needed_words_of 0 reserve) (normalize_free_space free_space)
           = Some (Inr allocation)"
    and "returncode w
           (tr2 @ [Truncate relocatable, Copy ''rom.gba'' ''test.gba'',
                   Write (os_path_join build [''main.asm''])
                     (template @ [marker, allocation_label allocation] @ define_labels (cfg_defines cfg))])
           (assemble_argv ARMIPS (needed_words_of 0 reserve)) = Some c"
  shows "long_calls = []
    \<and> link_step w LD (tr2, long_calls) = Inr (tr2 @ [Truncate relocatable], 0)
    \<and> pipeline w cfg
        = allocate_and_assemble w (cfg_defines cfg) free_space reserve (tr2 @ [Truncate relocatable], 0)
    \<and> pipeline w cfg
        = (tr2 @ [Truncate relocatable, Copy ''rom.gba'' ''test.gba'',
                  Write (os_path_join build [''main.asm''])
                    (template @ [marker, allocation_label allocation] @ define_labels (cfg_defines cfg)),
                  Run (assemble_argv ARMIPS (needed_words_of 0 reserve)) c]
               @ (if c \<noteq> 0 then [Print ''Error :: Assembly failed.''] else []),
           Some (if c \<noteq> 0 then Exit c else Finished))
    \<and> needed_words_of 0 reserve = drop_bit 2 (round_up_to_4 reserve)
    \<and> (0 \<le> reserve \<longrightarrow> needed_words_of 0 reserve = \<lceil>real_of_int reserve / 4\<rceil>)"
proof -
  from assms(3,4) have e: "long_calls = []" by (rule compile_loop_short_only)
  then have l: "link_step w LD (tr2, long_calls) = Inr (tr2 @ [Truncate relocatable], 0)"
    by (simp add: link_step_def)
  from assms(1,2,3) l
  have p: "pipeline w cfg
        = allocate_and_assemble w (cfg_defines cfg) free_space reserve (tr2 @ [Truncate relocatable], 0)"
    by (simp add: pipeline_def compile_and_rest_def merge_and_rest_def)
  from assms(6) have tr3: "tr3 = tr2 @ [Truncate relocatable, Copy ''rom.gba'' ''test.gba'']"
    by (rule find_armips_trace(2))
  have a: "allocate_and_assemble w (cfg_defines cfg) free_space reserve (tr2 @ [Truncate relocatable], 0)
        = (tr2 @ [Truncate relocatable, Copy ''rom.gba'' ''test.gba'',
                  Write (os_path_join build [''main.asm''])
                    (template @ [marker, allocation_label allocation] @ define_labels (cfg_defines cfg)),
                  Run (assemble_argv ARMIPS (needed_words_of 0 reserve)) c]
               @ (if c \<noteq> 0 then [Print ''Error :: Assembly failed.''] else []),
           Some (if c \<noteq> 0 then Exit c else Finished))"
    using assms(5,6,7,8,9) unfolding tr3
    by (simp add: allocate_and_assemble_def Let_def)
  have n: "needed_words_of 0 reserve = drop_bit 2 (round_up_to_4 reserve)"
    by (simp add: needed_words_of_def)
  have "0 \<le> reserve \<longrightarrow> needed_words_of 0 reserve = \<lceil>real_of_int (0 + reserve) / 4\<rceil>"
    using needed_words_of_ceiling [of 0 reserve] by simp
  then have k: "0 \<le> reserve \<longrightarrow> needed_words_of 0 reserve = \<lceil>real_of_int reserve / 4\<rceil>"
    by simp
  from e l p a n k show ?thesis by simp
qed

theorem empty_long_calls_zero_blob_witness:
  "pipeline
     ((demo_world [''a.c''] (\<lambda>tr argv. Some 0))
        \<lparr>py_int := (\<lambda>base s. if (base, s) = (16, ''0x08000000'') then Some 0x08000000
                               else if (base, s) = (10, ''5'') then Some 5 else None)\<rparr>)
     ((demo_config {''a.c''})\<lparr>cfg_reserve := Some ''5''\<rparr>)
   = ([Rmtree ''build'', Mkdir ''build'', Mkdir ''build/src'',
       Run [''/usr/bin/arm-none-eabi-gcc'', ''-O2'', ''-Wall'', ''-Wextra'', ''-mthumb'',
            ''-mno-thumb-interwork'', ''-fno-inline'', ''-fno-builtin'', ''-std=c11'',
            ''-mcpu=arm7tdmi'', ''-march=armv4t'', ''-mtune=arm7tdmi'', ''-c'', ''-mno-long-calls'',
            ''src/a.c'', ''-o'', ''build/src/a.o''] 0,
       Truncate ''build/src/relocatable.o'',
       Copy ''rom.gba'' ''test.gba'',
       Write ''build/main.asm'' [''.gba'' @ [CHR 0x0A], marker, allocation_label 0x08000004],
       Run [''/usr/bin/armips'', ''-sym'', ''test.sym'', ''build/main.asm'', ''-equ'',
            ''allocation_size'', ''8''] 0],
      Some Finished)
   \<and> needed_words_of 0 5 = 2"
proof -
  define w where "w = (demo_world [''a.c''] (\<lambda>tr argv. Some 0))
        \<lparr>py_int := (\<lambda>base s. if (base, s) = (16, ''0x08000000'') then Some 0x08000000
                               else if (base, s) = (10, ''5'') then Some 5 else None)\<rparr>"
  define cfg where "cfg = (demo_config {''a.c''})\<lparr>cfg_reserve := Some ''5''\<rparr>"
  let ?rom = "[0, 0, 0, 0, 0xFF, 0xFF, 0xFF, 0xFF, 0xFF, 0xFF, 0xFF, 0xFF, 0xFF, 0xFF, 0xFF, 0xFF] :: byte list"
  let ?gcc = "[''/usr/bin/arm-none-eabi-gcc'', ''-O2'', ''-Wall'', ''-Wextra'', ''-mthumb'',
            ''-mno-thumb-interwork'', ''-fno-inline'', ''-fno-builtin'', ''-std=c11'',
            ''-mcpu=arm7tdmi'', ''-march=armv4t'', ''-mtune=arm7tdmi'', ''-c'', ''-mno-long-calls'',
            ''src/a.c'', ''-o'', ''build/src/a.o'']"
  let ?tr1 = "[Rmtree ''build'', Mkdir ''build'', Mkdir ''build/src'']"
  let ?tr2 = "?tr1 @ [Run ?gcc 0]"
  have w: "py_int w 16 ''0x08000000'' = Some 0x08000000" "py_int w 10 ''5'' = Some 5"
    "environ w = (\<lambda>name. None)" "path_exists w = (\<lambda>path. path = ''src'')"
    "which w = (\<lambda>name. Some (''/usr/bin/'' @ name))" "listdir w = (\<lambda>path. [''a.c''])"
    "returncode w = (\<lambda>tr argv. Some 0)" "file_rom_gba w = Some ?rom"
    "file_main_asm w = Some [''.gba'' @ [CHR 0x0A]]"
    by (simp_all add: w_def demo_world_sel)
  have c: "cfg_free_space cfg = Some ''0x08000000''" "cfg_reserve cfg = Some ''5''"
    "cfg_optimization_level cfg = Some ''-O2''" "cfg_short_calls cfg = {''a.c''}"
    "cfg_defines cfg = []"
    by (simp_all add: cfg_def demo_config_def)
  have 1: "parse_config w cfg [] = Inr ([], 0x08000000, 5, ''-O2'')"
    by (simp add: parse_config_def w c understood_levels_def)
  have 2: "find_devkitarm w (clean_build []) =
      Inr (?tr1, ''/usr/bin/arm-none-eabi-gcc'', ''/usr/bin/arm-none-eabi-ld'')"
    by (simp add: find_devkitarm_def clean_build_def w build_def build_src_def
        os_path_join_def join2_def src_def)
  have f: "source_files w = [''a.c'']"
    by (simp add: source_files_def w src_def fnmatch_c_def suffix_to_prefix)
  have 3: "compile_loop w ''/usr/bin/arm-none-eabi-gcc'' (CFLAGS ''-O2'' (cfg_defines cfg))
      (cfg_short_calls cfg) (source_files w) (?tr1, []) = Inr (?tr2, [])"
    by (simp add: f c w CFLAGS_def compile_argv_def obj_path_def os_path_join_def
        join2_def src_def build_def build_src_def)
  have 4: "\<forall>f \<in> set (source_files w). f \<in> cfg_short_calls cfg"
    by (simp add: f c)
  have 6: "find_armips w (?tr2 @ [Truncate relocatable, Copy ''rom.gba'' ''test.gba''])
      = Inr (?tr2 @ [Truncate relocatable, Copy ''rom.gba'' ''test.gba''], ''/usr/bin/armips'')"
    by (simp add: find_armips_def w)
  have n: "needed_words_of 0 5 = 2" and fs: "normalize_free_space 0x08000000 = 0x08000000"
    by (simp_all add: needed_words_of_def normalize_free_space_def offset_mask_def round_up_to_4_eq)
  have "find_needed_words (Some ?rom) 2 0x08000000 = Some (Inr 0x08000004)"
    by (simp add: find_needed_words_def offset_mask_def scan_loop.simps scan_step_def erased_def)
  then have 8: "find_needed_words (Some ?rom) (needed_words_of 0 5) (normalize_free_space 0x08000000)
      = Some (Inr 0x08000004)"
    by (simp only: n fs)
  have 9: "returncode w
      (?tr2 @ [Truncate relocatable, Copy ''rom.gba'' ''test.gba'',
               Write (os_path_join build [''main.asm''])
                 ([''.gba'' @ [CHR 0x0A]] @ [marker, allocation_label 0x08000004]
                   @ define_labels (cfg_defines cfg))])
      (assemble_argv ''/usr/bin/armips'' (needed_words_of 0 5)) = Some 0"
    by (simp add: w)
  have s: "str_int 8 = ''8''"
    by (simp add: str_int_def str_nat.simps)
  from empty_long_calls_zero_blob [OF 1 2 3 4 w(8) 6 w(9) 8 9]
  have "pipeline w cfg
      = (?tr2 @ [Truncate relocatable, Copy ''rom.gba'' ''test.gba'',
               Write (os_path_join build [''main.asm''])
                 ([''.gba'' @ [CHR 0x0A]] @ [marker, allocation_label 0x08000004]
                   @ define_labels (cfg_defines cfg)),
               Run (assemble_argv ''/usr/bin/armips'' (needed_words_of 0 5)) 0]
             @ (if (0::int) \<noteq> 0 then [Print ''Error :: Assembly failed.''] else []),
         Some (if (0::int) \<noteq> 0 then Exit 0 else Finished))"
    by blast
  then have "pipeline w cfg
      = ([Rmtree ''build'', Mkdir ''build'', Mkdir ''build/src'', Run ?gcc 0,
          Truncate ''build/src/relocatable.o'',
          Copy ''rom.gba'' ''test.gba'',
          Write ''build/main.asm'' [''.gba'' @ [CHR 0x0A], marker, allocation_label 0x08000004],
          Run [''/usr/bin/armips'', ''-sym'', ''test.sym'', ''build/main.asm'', ''-equ'',
               ''allocation_size'', ''8''] 0],
         Some Finished)"
    by (simp add: n s c define_labels_def assemble_argv_def relocatable_def os_path_join_def
        join2_def build_def build_src_def src_def)
  with n show ?thesis
    by (simp only: w_def cfg_def simp_thms)
qed

subsection \<open>Configuration errors\<close>

text \<open>A malformed field that is a string is reported on one line and ends the run with 1.\<close>

lemma config_error_exits:
  "cfg_free_space cfg = Some fs \<Longrightarrow> py_int w 16 fs = None \<Longrightarrow>
   pipeline w cfg = ([Print (''Error :: '' @ fs @ '' is not a hexadecimal integer.'')], Some (Exit 1))"
  "cfg_free_space cfg = Some fs \<Longrightarrow> py_int w 16 fs = Some v \<Longrightarrow>
   cfg_reserve cfg = Some rs \<Longrightarrow> py_int w 10 rs = None \<Longrightarrow>
   pipeline w cfg = ([Print (''Error :: '' @ rs @ '' is not a decimal integer.'')], Some (Exit 1))"
  "cfg_free_space cfg = Some fs \<Longrightarrow> py_int w 16 fs = Some v \<Longrightarrow>
   cfg_reserve cfg = Some rs \<Longrightarrow> py_int w 10 rs = Some r \<Longrightarrow>
   cfg_optimization_level cfg = Some level \<Longrightarrow> level \<notin> set understood_levels \<Longrightarrow>
   pipeline w cfg
     = ([Print (''Error :: '' @ level @ '' is not an understood optimization level.'')], Some (Exit 1))"
  by (simp_all add: pipeline_def parse_config_def)

text \<open>
  C10. The claim says that a free-space field that is not a hexadecimal integer gives a
  one-line diagnostic naming the value and exit code 1. A \<^verbatim>\<open>free-space\<close> key written without a
  value reads as \<^verbatim>\<open>None\<close>; \<^verbatim>\<open>int(None, 16)\<close> raises \<^verbatim>\<open>TypeError\<close>, which line 35 does not catch: the
  run ends with the exception and no diagnostic is printed. (For a field that is a
  string the claim holds: \<open>config_error_exits\<close>.)
\<close>

theorem valueless_free_space_raises:
  "pipeline w \<lparr>cfg_free_space = None, cfg_optimization_level = Some ''-O2'',
               cfg_reserve = Some ''0'', cfg_short_calls = {}, cfg_defines = []\<rparr>
     = ([], Some (Raised TypeError))"
  by (simp add: pipeline_def parse_config_def)

end
